theory Spec2Isabelle
  imports Main "HOL-Library.AList" "HOL-Library.Word"
begin

section \<open>Python values handled by mcap2csv\<close>

text \<open>
  The values \<open>flatten_ros_message\<close> can meet. The source tells them apart with
  \<open>isinstance(v, (int, float, str, bool))\<close>, \<open>isinstance(v, (list, tuple))\<close> and
  \<open>hasattr(v, "__slots__")\<close>, so the model has one constructor for each answer:
  \<^item> the four basic types; a float is kept as its 64-bit pattern, since flattening only
    copies it;
  \<^item> ls and tuples, with their elements in order;
  \<^item> \<open>PMsg cls fields\<close>: an object that has \<open>__slots__\<close>; \<open>fields\<close> ls each slot
    name with the value \<open>getattr\<close> returns for it, in the order of \<open>__slots__\<close>, and
    \<open>cls\<close> is the text of \<open>type(v)\<close>;
  \<^item> \<open>POther cls\<close>: any other object (bytes, dict, None, ...), \<open>cls\<close> again the text of
    \<open>type(v)\<close>.
\<close>

datatype pyval =
    PInt int
  | PFloat "64 word"
  | PStr string
  | PBool bool
  | PList "pyval list"
  | PTuple "pyval list"
  | PMsg string "(string \<times> pyval) list"
  | POther string

text \<open>\<open>isinstance(v, (int, float, str, bool))\<close>\<close>

fun is_basic :: "pyval \<Rightarrow> bool" where
  "is_basic (PInt _) = True"
| "is_basic (PFloat _) = True"
| "is_basic (PStr _) = True"
| "is_basic (PBool _) = True"
| "is_basic _ = False"

text \<open>\<open>str(type(v))\<close>, as the f-strings of the diagnostics render it.\<close>

fun type_repr :: "pyval \<Rightarrow> string" where
  "type_repr (PInt _) = ''<class 'int'>''"
| "type_repr (PFloat _) = ''<class 'float'>''"
| "type_repr (PStr _) = ''<class 'str'>''"
| "type_repr (PBool _) = ''<class 'bool'>''"
| "type_repr (PList _) = ''<class 'list'>''"
| "type_repr (PTuple _) = ''<class 'tuple'>''"
| "type_repr (PMsg cls _) = cls"
| "type_repr (POther cls) = cls"

section \<open>Python dictionaries\<close>

text \<open>
  A \<open>dict\<close> keeps its keys in insertion order, and the order becomes the column order
  of the table, so a dictionary is an association list with distinct keys.
  \<open>d[k] = v\<close> replaces the value of a key that is present, where it stands, and appends a
  new key at the end; \<open>d.update(other)\<close> does so for each item of \<open>other\<close> in turn.
\<close>

type_synonym ('k, 'v) dict = "('k \<times> 'v) list"

fun dict_setitem :: "('k, 'v) dict \<Rightarrow> 'k \<Rightarrow> 'v \<Rightarrow> ('k, 'v) dict" where
  "dict_setitem [] k v = [(k, v)]"
| "dict_setitem ((k', v') # d) k v =
     (if k' = k then (k, v) # d else (k', v') # dict_setitem d k v)"

fun dict_update :: "('k, 'v) dict \<Rightarrow> ('k, 'v) dict \<Rightarrow> ('k, 'v) dict" where
  "dict_update d [] = d"
| "dict_update d ((k, v) # other) = dict_update (dict_setitem d k v) other"

definition dict_get :: "('k, 'v) dict \<Rightarrow> 'k \<Rightarrow> 'v option" where
  "dict_get d k = map_of d k"

definition dict_keys :: "('k, 'v) dict \<Rightarrow> 'k list" where
  "dict_keys d = map fst d"

section \<open>Diagnostics\<close>

text \<open>Calls of the \<open>logging\<close> module: the level and the message.\<close>

datatype level = DEBUG | INFO | WARNING | ERROR

type_synonym diag = "level \<times> string"

section \<open>Decimal rendering of an index\<close>

text \<open>\<open>str(i)\<close> for the non-negative index of \<open>enumerate\<close>.\<close>

definition digit_char :: "nat \<Rightarrow> char" where
  "digit_char d = char_of (48 + d)"

fun str_nat :: "nat \<Rightarrow> string" where
  "str_nat n = (if n < 10 then [digit_char n] else str_nat (n div 10) @ [digit_char (n mod 10)])"

declare str_nat.simps [simp del]

text \<open>\<open>f"{key}[{i}]"\<close>\<close>

definition index_key :: "string \<Rightarrow> nat \<Rightarrow> string" where
  "index_key key i = key @ ''['' @ str_nat i @ '']''"

text \<open>\<open>prefix + "." + field_name\<close> when the prefix is not empty, else \<open>field_name\<close>.\<close>

definition field_key :: "string \<Rightarrow> string \<Rightarrow> string" where
  "field_key prefix field_name =
     (if prefix \<noteq> [] then prefix @ ''.'' @ field_name else field_name)"

section \<open>flatten\_ros\_message\<close>

text \<open>
  The function returns the dictionary it built; the model returns with it the
  diagnostics it logged, in order. The loop over \<open>msg.__slots__\<close> is \<open>flatten_slots\<close>,
  the loop over \<open>enumerate(value)\<close> is \<open>flatten_items\<close>; both carry the dictionary
  \<open>flattened_ros_msg\<close> and the log so far.
\<close>

type_synonym row = "(string, pyval) dict"

function flatten_ros_message :: "pyval \<Rightarrow> string \<Rightarrow> row \<times> diag list"
  and flatten_slots :: "(string \<times> pyval) list \<Rightarrow> string \<Rightarrow> row \<times> diag list \<Rightarrow> row \<times> diag list"
  and flatten_items :: "pyval list \<Rightarrow> string \<Rightarrow> nat \<Rightarrow> row \<times> diag list \<Rightarrow> row \<times> diag list"
where
  "flatten_ros_message (PMsg cls fields) prefix = flatten_slots fields prefix ([], [])"
| "flatten_ros_message (PInt n) prefix = ([(prefix, PInt n)], [])"
| "flatten_ros_message (PFloat x) prefix = ([(prefix, PFloat x)], [])"
| "flatten_ros_message (PStr s) prefix = ([(prefix, PStr s)], [])"
| "flatten_ros_message (PBool b) prefix = ([(prefix, PBool b)], [])"
| "flatten_ros_message (PList vs) prefix = ([], [])"
| "flatten_ros_message (PTuple vs) prefix = ([], [])"
| "flatten_ros_message (POther cls) prefix = ([], [])"
| "flatten_slots [] prefix st = st"
| "flatten_slots ((field_name, value) # rest) prefix (flattened, log) =
     (let key = field_key prefix field_name in
      flatten_slots rest prefix
        (if is_basic value then (dict_setitem flattened key value, log)
         else case value of
           PList vs \<Rightarrow> flatten_items vs key 0 (flattened, log)
         | PTuple vs \<Rightarrow> flatten_items vs key 0 (flattened, log)
         | PMsg cls fs \<Rightarrow>
             (case flatten_ros_message (PMsg cls fs) key of
                (sub, sublog) \<Rightarrow> (dict_update flattened sub, log @ sublog))
         | _ \<Rightarrow>
             (flattened,
              log @ [(DEBUG, ''Skipping unsupported field type for '' @ key @ '': ''
                              @ type_repr value)])))"
| "flatten_items [] key i st = st"
| "flatten_items (v # vs) key i (flattened, log) =
     flatten_items vs key (Suc i)
       (if is_basic v then (dict_setitem flattened (index_key key i) v, log)
        else case v of
          PMsg cls fs \<Rightarrow>
            (case flatten_ros_message (PMsg cls fs) (index_key key i) of
               (sub, sublog) \<Rightarrow> (dict_update flattened sub, log @ sublog))
        | _ \<Rightarrow>
            (flattened,
             log @ [(DEBUG, ''Skipping unsupported list element type for ''
                             @ index_key key i @ '': '' @ type_repr v)]))"
  by pat_completeness auto
termination
  by (relation "measure (\<lambda>x. case x of
          Inl (msg, _) \<Rightarrow> size msg
        | Inr (Inl (fields, _)) \<Rightarrow> size_list (size_prod (\<lambda>_. 0) size) fields
        | Inr (Inr (vs, _)) \<Rightarrow> size_list size vs)") auto


section \<open>The reader and the ingest loop of main\<close>

text \<open>
  \<open>read_ros2_messages\<close> is an external generator. Each entry it yields carries
  \<open>channel.topic\<close>, \<open>ros_msg\<close> (\<open>None\<close> when the message could not be
  deserialised) and \<open>log_time\<close>; the generator may also raise while it is iterated.
  The stream is the list of what the generator does, in order.
\<close>

record msg_entry =
  topic :: string
  ros_msg :: "pyval option"
  log_time :: pyval

datatype reader_item = Yield msg_entry | Raise string

datatype py_exception = KeyError string | ReaderException string

fun exception_text :: "py_exception \<Rightarrow> string" where
  "exception_text (KeyError k) = [CHR 0x27] @ k @ [CHR 0x27]"
| "exception_text (ReaderException e) = e"

record ingest_state =
  topic_data :: "(string, row list) dict"
  message_counter :: nat
  logged :: "diag list"
  printed :: "string list"

definition initial_state :: ingest_state where
  "initial_state = \<lparr>topic_data = [], message_counter = 0, logged = [], printed = []\<rparr>"

text \<open>
  The body of the \<open>for msg_entry in read_ros2_messages(mcap_file)\<close> loop. The only
  operation of the body that can raise is the subscript \<open>topic_data[topic]\<close>.
\<close>

definition ingest_step :: "msg_entry \<Rightarrow> ingest_state \<Rightarrow> py_exception \<times> ingest_state + ingest_state" where
  "ingest_step e st0 =
     (let counter = message_counter st0 + 1;
          st = st0\<lparr>message_counter := counter,
                   printed := (if counter mod 1000 = 0
                               then printed st0 @ [[CHR 0x0D] @ ''Processing message ''
                                                    @ str_nat counter @ ''...'']
                               else printed st0)\<rparr>
      in case ros_msg e of
           None \<Rightarrow>
             Inr (st\<lparr>logged := logged st @
                    [(WARNING, ''Skipping message from topic '' @ [CHR 0x27] @ topic e
                               @ [CHR 0x27] @ '' due to deserialization failure.'')]\<rparr>)
         | Some m \<Rightarrow>
             (case flatten_ros_message m [] of
                (flat, debug) \<Rightarrow>
                  (let flat_msg = dict_setitem flat ''log_timestamp_ns'' (log_time e);
                       st = st\<lparr>logged := logged st @ debug\<rparr>
                   in if flat_msg = [] then
                        Inr (st\<lparr>logged := logged st @
                               [(DEBUG, ''Skipping message from topic '' @ [CHR 0x27] @ topic e
                                  @ [CHR 0x27] @ '' as no extractable fields were found''
                                  @ '' (even after adding log_timestamp).'')]\<rparr>)
                      else
                        (let td = (if topic e \<notin> set (dict_keys (topic_data st))
                                   then dict_setitem (topic_data st) (topic e) []
                                   else topic_data st)
                         in case dict_get td (topic e) of
                              None \<Rightarrow> Inl (KeyError (topic e), st\<lparr>topic_data := td\<rparr>)
                            | Some msgs \<Rightarrow>
                                Inr (st\<lparr>topic_data :=
                                          dict_setitem td (topic e) (msgs @ [flat_msg])\<rparr>)))))"

fun ingest_loop :: "reader_item list \<Rightarrow> ingest_state \<Rightarrow> py_exception \<times> ingest_state + ingest_state" where
  "ingest_loop [] st = Inr st"
| "ingest_loop (Raise e # rest) st = Inl (ReaderException e, st)"
| "ingest_loop (Yield e # rest) st =
     (case ingest_step e st of
        Inl err \<Rightarrow> Inl err
      | Inr st' \<Rightarrow> ingest_loop rest st')"

section \<open>The table of one topic\<close>

text \<open>
  pandas is an external library; the model keeps of a \<open>DataFrame\<close> what \<open>main\<close>
  relies on. A frame is column-oriented: an ordered dictionary from column name to
  series, and the number of rows. \<open>pd.DataFrame(messages)\<close> of a list of dictionaries
  has one row per dictionary and one column per key, in the order in which the keys are
  first seen; a row that lacks a key has the missing marker there.
  \<open>df[name] = series\<close> replaces a column where it stands or appends a new one, as a
  dictionary does; \<open>df[name]\<close> and \<open>df[names]\<close> raise \<open>KeyError\<close> for a column
  that is not there.
\<close>

datatype cell = Value pyval | NaN

type_synonym series = "cell list"

record dataframe =
  df_index :: nat
  df_cols :: "(string, series) dict"

definition df_columns :: "dataframe \<Rightarrow> string list" where
  "df_columns df = dict_keys (df_cols df)"

fun first_seen :: "'a list \<Rightarrow> 'a list \<Rightarrow> 'a list" where
  "first_seen seen [] = seen"
| "first_seen seen (k # ks) = first_seen (if k \<in> set seen then seen else seen @ [k]) ks"

definition cell_of :: "pyval option \<Rightarrow> cell" where
  "cell_of x = (case x of None \<Rightarrow> NaN | Some v \<Rightarrow> Value v)"

definition DataFrame :: "row list \<Rightarrow> dataframe" where
  "DataFrame messages =
     \<lparr>df_index = length messages,
      df_cols = map (\<lambda>c. (c, map (\<lambda>m. cell_of (dict_get m c)) messages))
                    (first_seen [] (concat (map dict_keys messages)))\<rparr>"

definition df_getitem :: "dataframe \<Rightarrow> string \<Rightarrow> py_exception + series" where
  "df_getitem df name =
     (case dict_get (df_cols df) name of None \<Rightarrow> Inl (KeyError name) | Some s \<Rightarrow> Inr s)"

definition df_setitem :: "dataframe \<Rightarrow> string \<Rightarrow> series \<Rightarrow> dataframe" where
  "df_setitem df name s = df\<lparr>df_cols := dict_setitem (df_cols df) name s\<rparr>"

fun select_cols :: "(string, series) dict \<Rightarrow> string list \<Rightarrow> py_exception + (string, series) dict" where
  "select_cols d [] = Inr []"
| "select_cols d (c # cs) =
     (case dict_get d c of
        None \<Rightarrow> Inl (KeyError c)
      | Some s \<Rightarrow> (case select_cols d cs of Inl e \<Rightarrow> Inl e | Inr r \<Rightarrow> Inr ((c, s) # r)))"

definition df_select :: "dataframe \<Rightarrow> string list \<Rightarrow> py_exception + dataframe" where
  "df_select df names =
     (case select_cols (df_cols df) names of
        Inl e \<Rightarrow> Inl e
      | Inr d \<Rightarrow> Inr (df\<lparr>df_cols := d\<rparr>))"

definition df_drop :: "dataframe \<Rightarrow> string \<Rightarrow> dataframe" where
  "df_drop df name = df\<lparr>df_cols := filter (\<lambda>(c, s). c \<noteq> name) (df_cols df)\<rparr>"

text \<open>
  \<open>if c in other_cols [and cond]: ordered_cols.append(c); other_cols.remove(c)\<close>,
  on the pair of the two ls.
\<close>

definition move_col :: "bool \<Rightarrow> string \<Rightarrow> string list \<times> string list \<Rightarrow> string list \<times> string list" where
  "move_col cond c ls =
     (case ls of (ordered_cols, other_cols) \<Rightarrow>
        if c \<in> set other_cols \<and> cond
        then (ordered_cols @ [c], remove1 c other_cols)
        else (ordered_cols, other_cols))"

text \<open>
  The body of the loop \<open>for topic, messages in topic_data.items()\<close> up to the frame
  that is handed to \<open>to_csv\<close>. The two numeric operations of pandas,
  \<open>pd.to_numeric(series, errors="coerce")\<close> and \<open>series / 1_000_000_000.0\<close>, compute
  in floating point; they are parameters of the model.
\<close>

definition process_topic ::
  "(series \<Rightarrow> series) \<Rightarrow> (series \<Rightarrow> series) \<Rightarrow> string \<Rightarrow> row list
     \<Rightarrow> py_exception + dataframe \<times> diag list" where
  "process_topic to_numeric div_1e9 tp messages =
     (let df = DataFrame messages in
      if ''log_timestamp_ns'' \<in> set (df_columns df) then
        (case df_getitem df ''log_timestamp_ns'' of
           Inl e \<Rightarrow> Inl e
         | Inr ns \<Rightarrow>
           (let df = df_setitem df ''log_timestamp_ns'' (to_numeric ns) in
            case df_getitem df ''log_timestamp_ns'' of
              Inl e \<Rightarrow> Inl e
            | Inr ns \<Rightarrow>
              (let df = df_setitem df ''log_timestamp'' (div_1e9 ns);
                   other_cols = filter (\<lambda>col. col \<notin> set [''log_timestamp'', ''log_timestamp_ns''])
                                       (df_columns df);
                   ls = ([''log_timestamp''], other_cols);
                   ls = move_col True ''header.stamp.sec'' ls;
                   ls = move_col True ''header.stamp.nanosec'' ls;
                   ls = move_col (tp = ''/rosout'') ''stamp.sec'' ls;
                   ls = move_col (tp = ''/rosout'') ''stamp.nanosec'' ls;
                   ordered_cols = fst ls @ snd ls
               in case df_select df ordered_cols of
                    Inl e \<Rightarrow> Inl e
                  | Inr df \<Rightarrow>
                      Inr (if ''log_timestamp_ns'' \<in> set (df_columns df)
                           then df_drop df ''log_timestamp_ns'' else df, []))))
      else
        Inr (df, [(WARNING, ''Topic '' @ [CHR 0x27] @ tp @ [CHR 0x27]
                     @ '' DataFrame does not contain 'log_timestamp_ns' column.''
                     @ '' Timestamp processing skipped for this topic.'')]))"

fun process_topics ::
  "(series \<Rightarrow> series) \<Rightarrow> (series \<Rightarrow> series) \<Rightarrow> (string, row list) dict
     \<Rightarrow> py_exception + (string \<times> dataframe) list \<times> diag list" where
  "process_topics to_numeric div_1e9 [] = Inr ([], [])"
| "process_topics to_numeric div_1e9 ((tp, messages) # rest) =
     (case process_topic to_numeric div_1e9 tp messages of
        Inl e \<Rightarrow> Inl e
      | Inr (df, log) \<Rightarrow>
          (case process_topics to_numeric div_1e9 rest of
             Inl e \<Rightarrow> Inl e
           | Inr (tables, log') \<Rightarrow> Inr ((tp, df) # tables, log @ log')))"

text \<open>
  \<open>main\<close> from the ingest loop on: how the run ends, and with which diagnostics.
  \<open>Exit n\<close> is \<open>sys.exit(n)\<close>, \<open>Uncaught e\<close> an exception outside the \<open>try\<close> block,
  \<open>Tables ts\<close> the normal end with the frame written for each topic, in the order of
  \<open>topic_data\<close>.
\<close>

datatype outcome = Exit nat | Uncaught py_exception | Tables "(string \<times> dataframe) list"

definition main_run ::
  "(series \<Rightarrow> series) \<Rightarrow> (series \<Rightarrow> series) \<Rightarrow> reader_item list \<Rightarrow> outcome \<times> diag list" where
  "main_run to_numeric div_1e9 items =
     (case ingest_loop items initial_state of
        Inl (e, st) \<Rightarrow>
          (Exit 1, logged st @
             [(ERROR, ''An unexpected error occurred while reading the MCAP file: ''
                      @ exception_text e)])
      | Inr st \<Rightarrow>
          if topic_data st = [] then
            (Exit 0, logged st @
               [(WARNING, ''No messages found or no suitable data could be extracted''
                          @ '' for CSV conversion.'')])
          else
            (case process_topics to_numeric div_1e9 (topic_data st) of
               Inl e \<Rightarrow> (Uncaught e, logged st)
             | Inr (tables, log) \<Rightarrow> (Tables tables, logged st @ log)))"


section \<open>Notions used to state the properties\<close>

text \<open>A value with \<open>__slots__\<close>.\<close>

fun has_slots :: "pyval \<Rightarrow> bool" where
  "has_slots (PMsg _ _) = True"
| "has_slots _ = False"

text \<open>
  One pass through the body of each loop of \<open>flatten_ros_message\<close>, split into what it
  does to the dictionary and what it logs: for the element \<open>v\<close> at index \<open>i\<close> of a
  sequence under \<open>key\<close>, and for the field \<open>field_name\<close> with value \<open>v\<close> under
  \<open>prefix\<close>.
\<close>

definition item_row :: "pyval \<Rightarrow> string \<Rightarrow> nat \<Rightarrow> row \<Rightarrow> row" where
  "item_row v key i r =
     (if is_basic v then dict_setitem r (index_key key i) v
      else if has_slots v then dict_update r (fst (flatten_ros_message v (index_key key i)))
      else r)"

definition item_diags :: "pyval \<Rightarrow> string \<Rightarrow> nat \<Rightarrow> diag list" where
  "item_diags v key i =
     (if is_basic v then []
      else if has_slots v then snd (flatten_ros_message v (index_key key i))
      else [(DEBUG, ''Skipping unsupported list element type for ''
                     @ index_key key i @ '': '' @ type_repr v)])"

definition slot_row :: "string \<Rightarrow> pyval \<Rightarrow> string \<Rightarrow> row \<Rightarrow> row" where
  "slot_row field_name v prefix r =
     (if is_basic v then dict_setitem r (field_key prefix field_name) v
      else case v of
        PList vs \<Rightarrow> fst (flatten_items vs (field_key prefix field_name) 0 (r, []))
      | PTuple vs \<Rightarrow> fst (flatten_items vs (field_key prefix field_name) 0 (r, []))
      | PMsg cls fs \<Rightarrow>
          dict_update r (fst (flatten_ros_message (PMsg cls fs) (field_key prefix field_name)))
      | _ \<Rightarrow> r)"

definition slot_diags :: "string \<Rightarrow> pyval \<Rightarrow> string \<Rightarrow> diag list" where
  "slot_diags field_name v prefix =
     (if is_basic v then []
      else case v of
        PList vs \<Rightarrow> snd (flatten_items vs (field_key prefix field_name) 0 ([], []))
      | PTuple vs \<Rightarrow> snd (flatten_items vs (field_key prefix field_name) 0 ([], []))
      | PMsg cls fs \<Rightarrow> snd (flatten_ros_message (PMsg cls fs) (field_key prefix field_name))
      | _ \<Rightarrow> [(DEBUG, ''Skipping unsupported field type for ''
                      @ field_key prefix field_name @ '': '' @ type_repr v)])"

text \<open>A flat row: the keys are distinct and every value is of a basic type.\<close>

definition row_ok :: "row \<Rightarrow> bool" where
  "row_ok r \<longleftrightarrow> distinct (dict_keys r) \<and> list_all (\<lambda>(k, v). is_basic v) r"

text \<open>The entries \<open>(key[i], v)\<close> for the elements \<open>v\<close> of a sequence, counted from \<open>i\<close>.\<close>

definition indexed_entries :: "string \<Rightarrow> nat \<Rightarrow> pyval list \<Rightarrow> (string \<times> pyval) list" where
  "indexed_entries key i vs = map (\<lambda>(j, v). (index_key key j, v)) (enumerate i vs)"

text \<open>
  The merge, one after the other, of the rows that the elements of a sequence flatten
  to under the prefixes \<open>key[i]\<close>, \<open>key[i+1]\<close>, ...
\<close>

fun merge_items :: "row \<Rightarrow> string \<Rightarrow> nat \<Rightarrow> pyval list \<Rightarrow> row" where
  "merge_items r key i [] = r"
| "merge_items r key i (v # vs) =
     merge_items (dict_update r (fst (flatten_ros_message v (index_key key i)))) key (Suc i) vs"

text \<open>The number a decimal numeral stands for; it reads back what \<open>str_nat\<close> writes.\<close>

fun decimal_value :: "string \<Rightarrow> nat" where
  "decimal_value [] = 0"
| "decimal_value (c # cs) = (of_char c - 48) * 10 ^ length cs + decimal_value cs"

text \<open>
  The assignments \<open>(key, value)\<close> of a flattening in the order in which they are
  computed, with no dictionary involved: a basic field or element is one assignment, a
  nested message stands for the assignments of its own flattening.
\<close>

function assignments :: "pyval \<Rightarrow> string \<Rightarrow> (string \<times> pyval) list"
  and assignments_slots :: "(string \<times> pyval) list \<Rightarrow> string \<Rightarrow> (string \<times> pyval) list"
  and assignments_items :: "pyval list \<Rightarrow> string \<Rightarrow> nat \<Rightarrow> (string \<times> pyval) list"
where
  "assignments (PMsg cls slots) prefix = assignments_slots slots prefix"
| "assignments (PInt n) prefix = [(prefix, PInt n)]"
| "assignments (PFloat x) prefix = [(prefix, PFloat x)]"
| "assignments (PStr s) prefix = [(prefix, PStr s)]"
| "assignments (PBool b) prefix = [(prefix, PBool b)]"
| "assignments (PList vs) prefix = []"
| "assignments (PTuple vs) prefix = []"
| "assignments (POther cls) prefix = []"
| "assignments_slots [] prefix = []"
| "assignments_slots ((field_name, value) # rest) prefix =
     (if is_basic value then [(field_key prefix field_name, value)]
      else case value of
        PList vs \<Rightarrow> assignments_items vs (field_key prefix field_name) 0
      | PTuple vs \<Rightarrow> assignments_items vs (field_key prefix field_name) 0
      | PMsg cls fs \<Rightarrow> assignments (PMsg cls fs) (field_key prefix field_name)
      | _ \<Rightarrow> [])
     @ assignments_slots rest prefix"
| "assignments_items [] key i = []"
| "assignments_items (v # vs) key i =
     (if is_basic v then [(index_key key i, v)]
      else case v of
        PMsg cls fs \<Rightarrow> assignments (PMsg cls fs) (index_key key i)
      | _ \<Rightarrow> [])
     @ assignments_items vs key (Suc i)"
  by pat_completeness auto
termination
  by (relation "measure (\<lambda>x. case x of
          Inl (msg, _) \<Rightarrow> size msg
        | Inr (Inl (slots, _)) \<Rightarrow> size_list (size_prod (\<lambda>_. 0) size) slots
        | Inr (Inr (vs, _)) \<Rightarrow> size_list size vs)") auto

text \<open>The diagnostics of the two \<open>logging.debug\<close> calls of \<open>flatten_ros_message\<close>.\<close>

definition is_skip_diag :: "diag \<Rightarrow> bool" where
  "is_skip_diag d \<longleftrightarrow> fst d = DEBUG \<and> take 21 (snd d) = ''Skipping unsupported ''"

text \<open>
  The row the ingest loop stores for a decoded message, and the rows a channel is
  expected to hold after a stream of entries: one for each entry of the channel that
  was decoded, in arrival order.
\<close>

definition stamped_row :: "pyval \<Rightarrow> pyval \<Rightarrow> row" where
  "stamped_row m t = dict_setitem (fst (flatten_ros_message m [])) ''log_timestamp_ns'' t"

fun surviving_rows :: "string \<Rightarrow> msg_entry list \<Rightarrow> row list" where
  "surviving_rows tp [] = []"
| "surviving_rows tp (e # es) =
     (case ros_msg e of
        None \<Rightarrow> surviving_rows tp es
      | Some m \<Rightarrow>
          if topic e = tp then stamped_row m (log_time e) # surviving_rows tp es
          else surviving_rows tp es)"

definition bucket :: "ingest_state \<Rightarrow> string \<Rightarrow> row list" where
  "bucket st tp = (case dict_get (topic_data st) tp of None \<Rightarrow> [] | Some rows \<Rightarrow> rows)"

text \<open>
  The column order of the specification for a channel \<open>tp\<close> whose columns, in natural
  order, are \<open>cols\<close>.
\<close>

definition if_present :: "bool \<Rightarrow> string \<Rightarrow> string list \<Rightarrow> string list" where
  "if_present cond c cols = (if cond \<and> c \<in> set cols then [c] else [])"

definition expected_order :: "string \<Rightarrow> string list \<Rightarrow> string list" where
  "expected_order tp cols =
     (let placed = [''log_timestamp'']
            @ if_present True ''header.stamp.sec'' cols
            @ if_present True ''header.stamp.nanosec'' cols
            @ if_present (tp = ''/rosout'') ''stamp.sec'' cols
            @ if_present (tp = ''/rosout'') ''stamp.nanosec'' cols
      in placed @ filter (\<lambda>c. c \<notin> set placed \<and> c \<noteq> ''log_timestamp_ns'') cols)"

definition natural_order :: "row list \<Rightarrow> string list" where
  "natural_order messages = first_seen [] (concat (map dict_keys messages))"

section \<open>Dictionaries\<close>

lemma dict_setitem_update: "dict_setitem d k v = AList.update k v d"
  by (induction d) auto

lemma map_of_dict_setitem: "map_of (dict_setitem d k v) = (map_of d)(k \<mapsto> v)"
  by (simp add: dict_setitem_update update_conv')

lemma dict_get_setitem:
  "dict_get (dict_setitem d k v) k' = (if k' = k then Some v else dict_get d k')"
  by (simp add: dict_get_def map_of_dict_setitem)

lemma keys_dict_setitem: "set (dict_keys (dict_setitem d k v)) = insert k (set (dict_keys d))"
  by (simp add: dict_keys_def dict_setitem_update dom_update)

lemma distinct_dict_setitem:
  "distinct (dict_keys d) \<Longrightarrow> distinct (dict_keys (dict_setitem d k v))"
  by (simp add: dict_keys_def dict_setitem_update distinct_update)

lemma set_dict_setitem: "set (dict_setitem d k v) \<subseteq> insert (k, v) (set d)"
  by (induction d) (auto split: if_splits)

lemma dict_setitem_new: "k \<notin> set (dict_keys d) \<Longrightarrow> dict_setitem d k v = d @ [(k, v)]"
  by (induction d) (auto simp: dict_keys_def)

lemma dict_keys_setitem_present:
  "k \<in> set (dict_keys d) \<Longrightarrow> dict_keys (dict_setitem d k v) = dict_keys d"
proof (induction d)
  case Nil
  then show ?case by (simp add: dict_keys_def)
next
  case (Cons x d)
  obtain a b where x: "x = (a, b)" by (cases x)
  show ?case
  proof (cases "a = k")
    case True
    then show ?thesis by (simp add: x dict_keys_def)
  next
    case False
    with Cons.prems x have "k \<in> set (dict_keys d)" by (auto simp: dict_keys_def)
    with Cons.IH False show ?thesis by (simp add: x dict_keys_def)
  qed
qed

lemma dict_setitem_nonempty: "dict_setitem d k v \<noteq> []"
  by (cases d) (auto split: if_splits)

lemma map_of_dict_update: "map_of (dict_update d other) = map_of d ++ map_of (rev other)"
proof (induction d other rule: dict_update.induct)
  case (1 d)
  then show ?case by simp
next
  case (2 d k v other)
  have "map_of (dict_update d ((k, v) # other)) = map_of (dict_setitem d k v) ++ map_of (rev other)"
    using 2 by simp
  also have "\<dots> = (map_of d)(k \<mapsto> v) ++ map_of (rev other)"
    by (simp only: map_of_dict_setitem)
  also have "\<dots> = map_of d ++ map_of (rev ((k, v) # other))"
    by (auto simp: map_add_def fun_eq_iff split: option.splits)
  finally show ?case .
qed

lemma map_of_rev_distinct: "distinct (map fst xs) \<Longrightarrow> map_of (rev xs) = map_of xs"
proof (induction xs)
  case Nil
  then show ?case by simp
next
  case (Cons x xs)
  obtain k v where x: "x = (k, v)" by (cases x)
  from Cons.prems x have "map_of xs k = None"
    by (simp add: map_of_eq_None_iff)
  with Cons x show ?case
    by (auto simp: map_add_def fun_eq_iff split: option.splits)
qed

lemma keys_dict_update:
  "set (dict_keys (dict_update d other)) = set (dict_keys d) \<union> set (dict_keys other)"
proof (induction d other rule: dict_update.induct)
  case (1 d)
  then show ?case by (simp add: dict_keys_def)
next
  case (2 d k v other)
  have "set (dict_keys (dict_update d ((k, v) # other)))
        = insert k (set (dict_keys d)) \<union> set (dict_keys other)"
    using 2 by (simp add: keys_dict_setitem)
  also have "\<dots> = set (dict_keys d) \<union> set (dict_keys ((k, v) # other))"
    by (simp add: dict_keys_def)
  finally show ?case .
qed

lemma distinct_dict_update:
  "distinct (dict_keys d) \<Longrightarrow> distinct (dict_keys (dict_update d other))"
  by (induction d other rule: dict_update.induct) (simp_all add: distinct_dict_setitem)

lemma set_dict_update: "set (dict_update d other) \<subseteq> set d \<union> set other"
proof (induction d other rule: dict_update.induct)
  case (1 d)
  then show ?case by simp
next
  case (2 d k v other)
  with set_dict_setitem [of d k v] show ?case by auto
qed

lemma dict_update_distinct:
  "distinct (dict_keys (d @ other)) \<Longrightarrow> dict_update d other = d @ other"
proof (induction d other rule: dict_update.induct)
  case (1 d)
  then show ?case by simp
next
  case (2 d k v other)
  from "2.prems" have new: "k \<notin> set (dict_keys d)"
    by (auto simp: dict_keys_def)
  from "2.prems" have "distinct (dict_keys ((d @ [(k, v)]) @ other))"
    by (auto simp: dict_keys_def)
  with 2 new show ?case by (simp add: dict_setitem_new)
qed

lemma dict_update_append: "dict_update d (a @ b) = dict_update (dict_update d a) b"
  by (induction d a rule: dict_update.induct) simp_all

section \<open>Keys\<close>

lemma decimal_value_snoc:
  "decimal_value (cs @ [c]) = 10 * decimal_value cs + (of_char c - 48)"
  by (induction cs) (simp_all add: algebra_simps)

lemma digit_value: "d < 10 \<Longrightarrow> of_char (digit_char d) - 48 = d"
  by (simp add: digit_char_def)

lemma decimal_value_str_nat: "decimal_value (str_nat n) = n"
proof (induction n rule: str_nat.induct)
  case (1 n)
  show ?case
  proof (cases "n < 10")
    case True
    then show ?thesis by (subst str_nat.simps) (simp add: digit_value)
  next
    case False
    with 1 have "decimal_value (str_nat (n div 10)) = n div 10" by simp
    with False show ?thesis
      by (subst str_nat.simps) (simp add: decimal_value_snoc digit_value)
  qed
qed

lemma str_nat_inj: "str_nat i = str_nat j \<longleftrightarrow> i = j"
  by (metis decimal_value_str_nat)

lemma index_key_inj: "index_key key i = index_key key j \<longleftrightarrow> i = j"
  by (simp add: index_key_def str_nat_inj)

lemma index_key_neq: "index_key key i \<noteq> key"
  by (simp add: index_key_def)


section \<open>The loops of flatten\_ros\_message, one pass at a time\<close>

declare flatten_ros_message.simps(1) [simp del]

lemma items_step:
  "flatten_items (v # vs) key i (r, log) =
     flatten_items vs key (Suc i) (item_row v key i r, log @ item_diags v key i)"
  by (cases v) (simp_all add: item_row_def item_diags_def case_prod_beta)

lemma items_unfold:
  "flatten_items vs key i (r, log) =
     (fold (\<lambda>(j, v). item_row v key j) (enumerate i vs) r,
      log @ concat (map (\<lambda>(j, v). item_diags v key j) (enumerate i vs)))"
proof (induction vs arbitrary: i r log)
  case Nil
  then show ?case by simp
next
  case (Cons v vs)
  show ?case by (simp only: items_step Cons.IH) simp
qed

lemma slots_step:
  "flatten_slots ((f, v) # rest) p (r, log) =
     flatten_slots rest p (slot_row f v p r, log @ slot_diags f v p)"
proof (cases v)
  case (PList vs)
  then show ?thesis
    by (simp add: slot_row_def slot_diags_def Let_def items_unfold [of vs _ _ r log]
        items_unfold [of vs _ _ r "[]"] items_unfold [of vs _ _ "[]" "[]"])
next
  case (PTuple vs)
  then show ?thesis
    by (simp add: slot_row_def slot_diags_def Let_def items_unfold [of vs _ _ r log]
        items_unfold [of vs _ _ r "[]"] items_unfold [of vs _ _ "[]" "[]"])
qed (simp_all add: slot_row_def slot_diags_def Let_def case_prod_beta)

lemma slots_unfold:
  "flatten_slots fs p (r, log) =
     (fold (\<lambda>(f, v). slot_row f v p) fs r,
      log @ concat (map (\<lambda>(f, v). slot_diags f v p) fs))"
proof (induction fs arbitrary: r log)
  case Nil
  then show ?case by simp
next
  case (Cons fv fs)
  obtain f v where fv: "fv = (f, v)" by (cases fv)
  show ?case unfolding fv by (simp only: slots_step Cons.IH) simp
qed

lemma flatten_PMsg:
  "flatten_ros_message (PMsg cls fs) p =
     (fold (\<lambda>(f, v). slot_row f v p) fs [], concat (map (\<lambda>(f, v). slot_diags f v p) fs))"
  by (simp add: flatten_ros_message.simps(1) slots_unfold)


section \<open>What every flattening guarantees\<close>

lemma row_ok_empty: "row_ok []"
  by (simp add: row_ok_def dict_keys_def)

lemma row_ok_setitem: "row_ok r \<Longrightarrow> is_basic v \<Longrightarrow> row_ok (dict_setitem r k v)"
  using set_dict_setitem [of r k v]
  by (auto simp: row_ok_def distinct_dict_setitem list_all_iff)

lemma row_ok_update: "row_ok r \<Longrightarrow> row_ok sub \<Longrightarrow> row_ok (dict_update r sub)"
  using set_dict_update [of r sub]
  by (auto simp: row_ok_def distinct_dict_update list_all_iff)

lemma flatten_row_ok:
  "row_ok (fst (flatten_ros_message msg prefix))"
  "row_ok (fst st) \<Longrightarrow> row_ok (fst (flatten_slots slots prefix st))"
  "row_ok (fst st) \<Longrightarrow> row_ok (fst (flatten_items vs key i st))"
proof (induction msg prefix and slots prefix st and vs key i st
       rule: flatten_ros_message_flatten_slots_flatten_items.induct)
  case (1 cls slots prefix)
  then show ?case by (simp add: flatten_ros_message.simps(1) row_ok_empty)
next
  case (10 field_name "value" rest prefix flattened log)
  show ?case
  proof (cases "value")
    case (PList vs)
    with 10 show ?thesis by (simp add: Let_def)
  next
    case (PTuple vs)
    with 10 show ?thesis by (simp add: Let_def)
  next
    case (PMsg cls fs)
    with 10 show ?thesis by (simp add: Let_def row_ok_update case_prod_beta)
  next
    case (POther cls)
    with 10 show ?thesis by (simp add: Let_def)
  qed (use 10 in \<open>simp_all add: Let_def row_ok_setitem\<close>)
next
  case (12 v vs key i flattened log)
  show ?case
  proof (cases v)
    case (PMsg cls fs)
    with 12 show ?thesis by (simp add: row_ok_update case_prod_beta)
  qed (use 12 in \<open>simp_all add: row_ok_setitem\<close>)
qed (simp_all add: row_ok_def dict_keys_def)

lemma skip_diag_field: "is_skip_diag (DEBUG, ''Skipping unsupported field type for '' @ m)"
  by (simp add: is_skip_diag_def)

lemma skip_diag_item: "is_skip_diag (DEBUG, ''Skipping unsupported list element type for '' @ m)"
  by (simp add: is_skip_diag_def)

lemma flatten_log_skips:
  "list_all is_skip_diag (snd (flatten_ros_message msg prefix))"
  "list_all is_skip_diag (snd st) \<Longrightarrow> list_all is_skip_diag (snd (flatten_slots slots prefix st))"
  "list_all is_skip_diag (snd st) \<Longrightarrow> list_all is_skip_diag (snd (flatten_items vs key i st))"
proof (induction msg prefix and slots prefix st and vs key i st
       rule: flatten_ros_message_flatten_slots_flatten_items.induct)
  case (1 cls slots prefix)
  then show ?case by (simp add: flatten_ros_message.simps(1))
next
  case (10 field_name "value" rest prefix flattened log)
  show ?case
  proof (cases "value")
    case (PList vs)
    with 10 show ?thesis by (simp add: Let_def)
  next
    case (PTuple vs)
    with 10 show ?thesis by (simp add: Let_def)
  next
    case (PMsg cls fs)
    with 10 show ?thesis by (simp add: Let_def case_prod_beta)
  next
    case (POther cls)
    with 10 skip_diag_field show ?thesis by (simp add: Let_def)
  qed (use 10 in \<open>simp_all add: Let_def\<close>)
next
  case (12 v vs key i flattened log)
  show ?case
  proof (cases v)
    case (PMsg cls fs)
    with 12 show ?thesis by (simp add: case_prod_beta)
  next
    case (PList ws)
    with 12 skip_diag_item show ?thesis by simp
  next
    case (PTuple ws)
    with 12 skip_diag_item show ?thesis by simp
  next
    case (POther cls)
    with 12 skip_diag_item show ?thesis by simp
  qed (use 12 in \<open>simp_all\<close>)
qed simp_all

lemma dict_get_update:
  "dict_get (dict_update d other) k =
     (case map_of (rev other) k of Some v \<Rightarrow> Some v | None \<Rightarrow> dict_get d k)"
  by (simp add: dict_get_def map_of_dict_update map_add_def split: option.splits)

lemma dict_get_update_distinct:
  "distinct (dict_keys other) \<Longrightarrow>
   dict_get (dict_update d other) k =
     (case dict_get other k of Some v \<Rightarrow> Some v | None \<Rightarrow> dict_get d k)"
  by (simp add: dict_get_update) (simp add: dict_get_def dict_keys_def map_of_rev_distinct)

lemma map_of_rev_append:
  "map_of (rev (a @ b)) k =
     (case map_of (rev b) k of Some v \<Rightarrow> Some v | None \<Rightarrow> map_of (rev a) k)"
  by (simp add: map_add_def split: option.splits)

lemma flatten_distinct: "distinct (dict_keys (fst (flatten_ros_message msg prefix)))"
  using flatten_row_ok(1) [of msg prefix] by (simp add: row_ok_def)


lemma flatten_last_write:
  "dict_get (fst (flatten_ros_message msg prefix)) k = map_of (rev (assignments msg prefix)) k"
  "\<forall>r log. dict_get (fst (flatten_slots slots prefix (r, log))) k =
     (case map_of (rev (assignments_slots slots prefix)) k of
        Some v \<Rightarrow> Some v | None \<Rightarrow> dict_get r k)"
  "\<forall>r log. dict_get (fst (flatten_items vs key i (r, log))) k =
     (case map_of (rev (assignments_items vs key i)) k of
        Some v \<Rightarrow> Some v | None \<Rightarrow> dict_get r k)"
proof (induction msg prefix and slots prefix and vs key i
       rule: assignments_assignments_slots_assignments_items.induct)
  case (1 cls slots prefix)
  then show ?case
    by (simp add: flatten_ros_message.simps(1)) (simp add: dict_get_def split: option.splits)
next
  case (10 field_name "value" rest prefix)
  define hd_asg where "hd_asg =
     (if is_basic value then [(field_key prefix field_name, value)]
      else case value of
        PList vs \<Rightarrow> assignments_items vs (field_key prefix field_name) 0
      | PTuple vs \<Rightarrow> assignments_items vs (field_key prefix field_name) 0
      | PMsg cls fs \<Rightarrow> assignments (PMsg cls fs) (field_key prefix field_name)
      | _ \<Rightarrow> [])"
  have asg: "assignments_slots ((field_name, value) # rest) prefix
             = hd_asg @ assignments_slots rest prefix"
    by (simp add: hd_asg_def)
  have row: "dict_get (slot_row field_name value prefix r) k =
       (case map_of (rev hd_asg) k of Some v \<Rightarrow> Some v | None \<Rightarrow> dict_get r k)" for r
  proof (cases "value")
    case (PList vs)
    with 10(1) show ?thesis by (simp add: slot_row_def hd_asg_def)
  next
    case (PTuple vs)
    with 10(2) show ?thesis by (simp add: slot_row_def hd_asg_def)
  next
    case (PMsg cls fs)
    with 10(3) show ?thesis
      by (simp add: slot_row_def hd_asg_def dict_get_update_distinct flatten_distinct)
  qed (simp_all add: slot_row_def hd_asg_def dict_get_setitem)
  show ?case
  proof (intro allI)
    fix r log
    have "dict_get (fst (flatten_slots ((field_name, value) # rest) prefix (r, log))) k =
          (case map_of (rev (assignments_slots rest prefix)) k of
             Some v \<Rightarrow> Some v
           | None \<Rightarrow> dict_get (slot_row field_name value prefix r) k)"
      using 10(4) by (simp only: slots_step)
    also have "\<dots> = (case map_of (rev (hd_asg @ assignments_slots rest prefix)) k of
             Some v \<Rightarrow> Some v | None \<Rightarrow> dict_get r k)"
      by (simp only: row map_of_rev_append) (simp split: option.splits)
    finally show "dict_get (fst (flatten_slots ((field_name, value) # rest) prefix (r, log))) k =
       (case map_of (rev (assignments_slots ((field_name, value) # rest) prefix)) k of
          Some v \<Rightarrow> Some v | None \<Rightarrow> dict_get r k)"
      by (simp only: asg)
  qed
next
  case (12 v vs key i)
  define hd_asg where "hd_asg =
     (if is_basic v then [(index_key key i, v)]
      else case v of
        PMsg cls fs \<Rightarrow> assignments (PMsg cls fs) (index_key key i)
      | _ \<Rightarrow> [])"
  have asg: "assignments_items (v # vs) key i = hd_asg @ assignments_items vs key (Suc i)"
    by (simp add: hd_asg_def)
  have row: "dict_get (item_row v key i r) k =
       (case map_of (rev hd_asg) k of Some v \<Rightarrow> Some v | None \<Rightarrow> dict_get r k)" for r
  proof (cases v)
    case (PMsg cls fs)
    with 12(1) show ?thesis
      by (simp add: item_row_def hd_asg_def dict_get_update_distinct flatten_distinct)
  qed (simp_all add: item_row_def hd_asg_def dict_get_setitem)
  show ?case
  proof (intro allI)
    fix r log
    have "dict_get (fst (flatten_items (v # vs) key i (r, log))) k =
          (case map_of (rev (assignments_items vs key (Suc i))) k of
             Some v \<Rightarrow> Some v
           | None \<Rightarrow> dict_get (item_row v key i r) k)"
      using 12(2) by (simp only: items_step)
    also have "\<dots> = (case map_of (rev (hd_asg @ assignments_items vs key (Suc i))) k of
             Some v \<Rightarrow> Some v | None \<Rightarrow> dict_get r k)"
      by (simp only: row map_of_rev_append) (simp split: option.splits)
    finally show "dict_get (fst (flatten_items (v # vs) key i (r, log))) k =
       (case map_of (rev (assignments_items (v # vs) key i)) k of
          Some v \<Rightarrow> Some v | None \<Rightarrow> dict_get r k)"
      by (simp only: asg)
  qed
qed (simp_all add: dict_get_def)

section \<open>Sequences\<close>

lemma slot_row_POther: "slot_row f (POther cls) p r = r"
  by (simp add: slot_row_def)

lemma item_row_unsupported: "\<not> is_basic v \<Longrightarrow> \<not> has_slots v \<Longrightarrow> item_row v key i r = r"
  by (simp add: item_row_def)

lemma fold_items_unsupported:
  "list_all (\<lambda>v. \<not> is_basic v \<and> \<not> has_slots v) vs \<Longrightarrow>
   fold (\<lambda>(j, v). item_row v key j) (enumerate i vs) r = r"
  by (induction vs arbitrary: i r) (simp_all add: item_row_unsupported)

lemma fold_items_basic:
  "list_all is_basic vs \<Longrightarrow>
   fold (\<lambda>(j, v). item_row v key j) (enumerate i vs) r
     = dict_update r (indexed_entries key i vs)"
  by (induction vs arbitrary: i r) (simp_all add: item_row_def indexed_entries_def)

lemma diags_items_basic:
  "list_all is_basic vs \<Longrightarrow>
   concat (map (\<lambda>(j, v). item_diags v key j) (enumerate i vs)) = []"
  by (induction vs arbitrary: i) (simp_all add: item_diags_def)

lemma fold_items_slots:
  "list_all has_slots vs \<Longrightarrow>
   fold (\<lambda>(j, v). item_row v key j) (enumerate i vs) r = merge_items r key i vs"
proof (induction vs arbitrary: i r)
  case Nil
  then show ?case by simp
next
  case (Cons v vs)
  from Cons.prems have "has_slots v" by simp
  then have "\<not> is_basic v" by (cases v) simp_all
  with Cons \<open>has_slots v\<close> show ?case by (simp add: item_row_def)
qed

lemma keys_indexed_entries:
  "dict_keys (indexed_entries key i vs) = map (index_key key) [i..<i + length vs]"
  by (simp add: dict_keys_def indexed_entries_def enumerate_eq_zip
      zip_map1 [symmetric] map_fst_zip flip: map_map)

lemma distinct_indexed_entries: "distinct (dict_keys (indexed_entries key i vs))"
  by (simp add: keys_indexed_entries distinct_map inj_on_def index_key_inj)

lemma dict_get_indexed_entries:
  assumes "i < length vs"
  shows "dict_get (indexed_entries key 0 vs) (index_key key i) = Some (vs ! i)"
proof -
  have "(i, vs ! i) \<in> set (enumerate 0 vs)"
    using assms by (simp add: in_set_enumerate_eq)
  then have "(index_key key i, vs ! i) \<in> set (indexed_entries key 0 vs)"
    by (force simp: indexed_entries_def)
  moreover have "distinct (map fst (indexed_entries key 0 vs))"
    using distinct_indexed_entries [of key 0 vs] by (simp add: dict_keys_def)
  ultimately show ?thesis by (simp add: dict_get_def)
qed

section \<open>Claims about flatten\_ros\_message\<close>

text \<open>
  Claim C5. When the message itself is a value of a basic type (it has no slots) and a
  prefix was supplied, the result is the row with the single entry \<open>(prefix, msg)\<close>,
  and nothing is logged.
\<close>

theorem bare_scalar_with_prefix:
  assumes "is_basic msg" and "prefix \<noteq> []"
  shows "flatten_ros_message msg prefix = ([(prefix, msg)], [])"
  using assms by (cases msg) simp_all

theorem bare_scalar_with_prefix_witness:
  "is_basic (PStr ''idle'') \<and> ''data'' \<noteq> []
   \<and> flatten_ros_message (PStr ''idle'') ''data'' = ([(''data'', PStr ''idle'')], [])"
  using bare_scalar_with_prefix [of "PStr ''idle''" "''data''"] by simp

text \<open>
  Claim C10. When the message itself is a value of a basic type and no prefix is given
  (the default, the empty string), the result is not the empty row: it is the row with
  the single entry whose key is the empty string and whose value is the message.
\<close>

theorem bare_scalar_without_prefix:
  assumes "is_basic msg"
  shows "flatten_ros_message msg [] = ([([], msg)], [])
         \<and> fst (flatten_ros_message msg []) \<noteq> []"
  using assms by (cases msg) simp_all

theorem bare_scalar_without_prefix_witness:
  "is_basic (PInt 7) \<and> flatten_ros_message (PInt 7) [] = ([([], PInt 7)], [])
   \<and> fst (flatten_ros_message (PInt 7) []) \<noteq> []"
  using bare_scalar_without_prefix [of "PInt 7"] by simp

text \<open>
  Claim C4. A field whose value is a sequence (list or tuple) of basic values writes,
  for each element at index \<open>i\<close>, the entry \<open>(key[i], element)\<close> into the row, in
  order, where \<open>key\<close> is the dotted key of the field, and logs nothing. A message with
  that field alone flattens to exactly these entries: their keys are \<open>key[0]\<close>,
  \<open>key[1]\<close>, ..., the value under \<open>key[i]\<close> is the element unchanged, and there is
  no entry under \<open>key\<close> itself. The witness is the example of the specification: the
  field \<open>xs\<close> with the values 10 and 20.
\<close>

theorem scalar_sequences_are_indexed:
  assumes "list_all is_basic vs" and "seq = PList vs \<or> seq = PTuple vs"
  shows "flatten_slots ((f, seq) # rest) p (r, log)
           = flatten_slots rest p (dict_update r (indexed_entries (field_key p f) 0 vs), log)
       \<and> flatten_ros_message (PMsg c [(f, seq)]) p = (indexed_entries (field_key p f) 0 vs, [])
       \<and> dict_keys (indexed_entries (field_key p f) 0 vs)
           = map (index_key (field_key p f)) [0..<length vs]
       \<and> (\<forall>i<length vs. dict_get (indexed_entries (field_key p f) 0 vs)
                            (index_key (field_key p f) i) = Some (vs ! i))
       \<and> field_key p f \<notin> set (dict_keys (indexed_entries (field_key p f) 0 vs))"
proof -
  let ?k = "field_key p f"
  have row: "slot_row f seq p r' = dict_update r' (indexed_entries ?k 0 vs)" for r'
    using assms by (auto simp: slot_row_def items_unfold fold_items_basic)
  have diags: "slot_diags f seq p = []"
    using assms by (auto simp: slot_diags_def items_unfold diags_items_basic)
  have step: "flatten_slots ((f, seq) # rest) p (r, log)
           = flatten_slots rest p (dict_update r (indexed_entries ?k 0 vs), log)"
    by (simp only: slots_step row diags) simp
  have "distinct (dict_keys ([] @ indexed_entries ?k 0 vs))"
    by (simp add: distinct_indexed_entries)
  then have "dict_update [] (indexed_entries ?k 0 vs) = indexed_entries ?k 0 vs"
    using dict_update_distinct [of "[]" "indexed_entries ?k 0 vs"] by simp
  then have whole: "flatten_ros_message (PMsg c [(f, seq)]) p = (indexed_entries ?k 0 vs, [])"
    by (simp add: flatten_PMsg row diags)
  have keys: "dict_keys (indexed_entries ?k 0 vs) = map (index_key ?k) [0..<length vs]"
    by (simp add: keys_indexed_entries)
  have vals: "\<forall>i<length vs. dict_get (indexed_entries ?k 0 vs) (index_key ?k i) = Some (vs ! i)"
    by (simp add: dict_get_indexed_entries)
  have "?k \<noteq> index_key ?k i" for i
    using index_key_neq [of ?k i] by simp
  then have nokey: "?k \<notin> set (dict_keys (indexed_entries ?k 0 vs))"
    by (auto simp: keys)
  from step whole keys vals nokey show ?thesis by blast
qed

theorem scalar_sequences_are_indexed_witness:
  "list_all is_basic [PInt 10, PInt 20]
   \<and> flatten_ros_message (PMsg ''Sample'' [(''xs'', PList [PInt 10, PInt 20])]) []
       = ([(''xs[0]'', PInt 10), (''xs[1]'', PInt 20)], [])
   \<and> ''xs'' \<notin> set (dict_keys [(''xs[0]'', PInt 10), (''xs[1]'', PInt 20)])"
proof -
  have basic: "list_all is_basic [PInt 10, PInt 20]" by simp
  have entries: "indexed_entries ''xs'' 0 [PInt 10, PInt 20]
                 = [(''xs[0]'', PInt 10), (''xs[1]'', PInt 20)]"
    by code_simp
  have key: "field_key [] ''xs'' = ''xs''" by (simp add: field_key_def)
  from scalar_sequences_are_indexed [OF basic disjI1 [OF refl],
      of "''xs''" "[]" "[]" "[]" "[]" "''Sample''"]
  have "flatten_ros_message (PMsg ''Sample'' [(''xs'', PList [PInt 10, PInt 20])]) []
        = (indexed_entries (field_key [] ''xs'') 0 [PInt 10, PInt 20], [])"
    by blast
  then have "flatten_ros_message (PMsg ''Sample'' [(''xs'', PList [PInt 10, PInt 20])]) []
        = ([(''xs[0]'', PInt 10), (''xs[1]'', PInt 20)], [])"
    by (simp only: key entries)
  with basic show ?thesis by (simp add: dict_keys_def)
qed

text \<open>
  Claim C1. A field whose value is a nested message merges into the row the entries of
  flattening that message with the field's dotted key as prefix (for a message with
  that field alone, the row is exactly that flattening). A field whose value is a
  sequence of nested messages merges, for each element at index \<open>i\<close> in turn, the
  entries of flattening the element with prefix \<open>key[i]\<close>. Every value of the model
  has finite depth, and for every one of them the resulting row has distinct keys and
  only values of a basic type: no nested structure remains.
\<close>

theorem nested_records_are_flattened_recursively:
  "flatten_slots ((f, PMsg cls fs) # rest) p (r, log)
     = flatten_slots rest p
         (dict_update r (fst (flatten_ros_message (PMsg cls fs) (field_key p f))),
          log @ snd (flatten_ros_message (PMsg cls fs) (field_key p f)))
   \<and> fst (flatten_ros_message (PMsg c [(f, PMsg cls fs)]) p)
       = fst (flatten_ros_message (PMsg cls fs) (field_key p f))
   \<and> (list_all has_slots vs \<and> (seq = PList vs \<or> seq = PTuple vs) \<longrightarrow>
        fst (flatten_slots ((f, seq) # rest) p (r, log))
          = fst (flatten_slots rest p (merge_items r (field_key p f) 0 vs, log))
        \<and> fst (flatten_ros_message (PMsg c [(f, seq)]) p)
          = merge_items [] (field_key p f) 0 vs)
   \<and> row_ok (fst (flatten_ros_message msg p))"
proof -
  let ?k = "field_key p f"
  let ?sub = "flatten_ros_message (PMsg cls fs) ?k"
  have single: "flatten_slots ((f, PMsg cls fs) # rest) p (r, log)
     = flatten_slots rest p (dict_update r (fst ?sub), log @ snd ?sub)"
    by (simp only: slots_step) (simp add: slot_row_def slot_diags_def)
  have "distinct (dict_keys ([] @ fst ?sub))"
    by (simp add: flatten_distinct)
  then have "dict_update [] (fst ?sub) = fst ?sub"
    using dict_update_distinct [of "[]" "fst ?sub"] by simp
  then have whole: "fst (flatten_ros_message (PMsg c [(f, PMsg cls fs)]) p) = fst ?sub"
    by (simp add: flatten_PMsg slot_row_def)
  have seqs: "fst (flatten_slots ((f, seq) # rest) p (r, log))
          = fst (flatten_slots rest p (merge_items r ?k 0 vs, log))
        \<and> fst (flatten_ros_message (PMsg c [(f, seq)]) p) = merge_items [] ?k 0 vs"
    if "list_all has_slots vs" and "seq = PList vs \<or> seq = PTuple vs"
  proof -
    have row: "slot_row f seq p r' = merge_items r' ?k 0 vs" for r'
      using that by (auto simp: slot_row_def items_unfold fold_items_slots)
    have "fst (flatten_slots ((f, seq) # rest) p (r, log))
          = fst (flatten_slots rest p (merge_items r ?k 0 vs, log))"
      by (simp only: slots_step row) (simp add: slots_unfold)
    moreover have "fst (flatten_ros_message (PMsg c [(f, seq)]) p) = merge_items [] ?k 0 vs"
      by (simp add: flatten_PMsg row)
    ultimately show ?thesis by simp
  qed
  from single whole seqs flatten_row_ok(1) [of msg p] show ?thesis by blast
qed

theorem nested_records_are_flattened_recursively_witness:
  "list_all has_slots [PMsg ''Point'' [(''x'', PInt 1), (''y'', PInt 2)],
                       PMsg ''Point'' [(''x'', PInt 3), (''y'', PInt 4)]]
   \<and> fst (flatten_ros_message (PMsg ''Path'' [(''pts'',
            PList [PMsg ''Point'' [(''x'', PInt 1), (''y'', PInt 2)],
                   PMsg ''Point'' [(''x'', PInt 3), (''y'', PInt 4)]])]) [])
       = [(''pts[0].x'', PInt 1), (''pts[0].y'', PInt 2),
          (''pts[1].x'', PInt 3), (''pts[1].y'', PInt 4)]
   \<and> row_ok [(''pts[0].x'', PInt 1), (''pts[0].y'', PInt 2),
              (''pts[1].x'', PInt 3), (''pts[1].y'', PInt 4)]"
proof -
  let ?vs = "[PMsg ''Point'' [(''x'', PInt 1), (''y'', PInt 2)],
              PMsg ''Point'' [(''x'', PInt 3), (''y'', PInt 4)]]"
  let ?msg = "PMsg ''Path'' [(''pts'', PList ?vs)]"
  have slots: "list_all has_slots ?vs" by simp
  have merged: "merge_items [] (field_key [] ''pts'') 0 ?vs
        = [(''pts[0].x'', PInt 1), (''pts[0].y'', PInt 2),
           (''pts[1].x'', PInt 3), (''pts[1].y'', PInt 4)]"
    by code_simp
  from nested_records_are_flattened_recursively
         [of "''pts''" _ _ "[]" "[]" "[]" "[]" "''Path''" ?vs "PList ?vs" ?msg]
  have "fst (flatten_ros_message ?msg []) = merge_items [] (field_key [] ''pts'') 0 ?vs"
    and "row_ok (fst (flatten_ros_message ?msg []))"
    using slots by blast+
  with slots show ?thesis by (simp only: merged)
qed

text \<open>Every diagnostic of \<open>flatten_ros_message\<close> is at debug level.\<close>

lemma skip_diag_level: "is_skip_diag d \<Longrightarrow> fst d = DEBUG"
  by (simp add: is_skip_diag_def)

text \<open>
  Claim C7. \<open>flatten_ros_message\<close> is a total function and its result has no failure
  value: each branch of the source is a branch of the model, and none of them raises.
  A field whose value is of an unsupported type leaves the row as it is and logs one
  debug diagnostic, and the remaining fields are processed as usual; so does an element
  of a sequence that is neither basic nor has slots. Hence the row of a message is the
  row of the same message without such a field, also when the field is a sequence whose
  elements are all unsupported (a sequence of sequences, say). Every diagnostic of a
  flattening is at debug level.
\<close>

theorem unsupported_values_are_skipped:
  "flatten_slots ((f, POther cls) # rest) p (r, log)
     = flatten_slots rest p
         (r, log @ [(DEBUG, ''Skipping unsupported field type for '' @ field_key p f
                            @ '': '' @ cls)])
   \<and> (\<not> is_basic v \<and> \<not> has_slots v \<longrightarrow>
        flatten_items (v # vs) key i (r, log)
          = flatten_items vs key (Suc i)
              (r, log @ [(DEBUG, ''Skipping unsupported list element type for ''
                                 @ index_key key i @ '': '' @ type_repr v)]))
   \<and> fst (flatten_ros_message (PMsg c (fs1 @ (f, POther cls) # fs2)) p)
       = fst (flatten_ros_message (PMsg c (fs1 @ fs2)) p)
   \<and> (list_all (\<lambda>v. \<not> is_basic v \<and> \<not> has_slots v) ws \<longrightarrow>
        fst (flatten_ros_message (PMsg c (fs1 @ (f, PList ws) # fs2)) p)
          = fst (flatten_ros_message (PMsg c (fs1 @ fs2)) p))
   \<and> list_all (\<lambda>d. fst d = DEBUG) (snd (flatten_ros_message msg p))"
proof -
  have field: "flatten_slots ((f, POther cls) # rest) p (r, log)
     = flatten_slots rest p
         (r, log @ [(DEBUG, ''Skipping unsupported field type for '' @ field_key p f
                            @ '': '' @ cls)])"
    by (simp only: slots_step) (simp add: slot_row_def slot_diags_def)
  have item: "flatten_items (v # vs) key i (r, log)
          = flatten_items vs key (Suc i)
              (r, log @ [(DEBUG, ''Skipping unsupported list element type for ''
                                 @ index_key key i @ '': '' @ type_repr v)])"
    if "\<not> is_basic v \<and> \<not> has_slots v"
    using that by (simp only: items_step) (simp add: item_row_def item_diags_def)
  have dropped: "fst (flatten_ros_message (PMsg c (fs1 @ (f, POther cls) # fs2)) p)
       = fst (flatten_ros_message (PMsg c (fs1 @ fs2)) p)"
    by (simp add: flatten_PMsg slot_row_POther)
  have seq: "fst (flatten_ros_message (PMsg c (fs1 @ (f, PList ws) # fs2)) p)
          = fst (flatten_ros_message (PMsg c (fs1 @ fs2)) p)"
    if "list_all (\<lambda>v. \<not> is_basic v \<and> \<not> has_slots v) ws"
  proof -
    have "slot_row f (PList ws) p r' = r'" for r'
      using that by (simp add: slot_row_def items_unfold fold_items_unsupported)
    then show ?thesis by (simp add: flatten_PMsg)
  qed
  have "list_all (\<lambda>d. fst d = DEBUG) (snd (flatten_ros_message msg p))"
    using flatten_log_skips(1) [of msg p] skip_diag_level
    by (auto simp: list_all_iff)
  with field item dropped seq show ?thesis by blast
qed

theorem unsupported_values_are_skipped_witness:
  "\<not> is_basic (PList []) \<and> \<not> has_slots (PList [])
   \<and> list_all (\<lambda>v. \<not> is_basic v \<and> \<not> has_slots v) [PList [PInt 1], POther ''<class 'bytes'>'']
   \<and> flatten_ros_message
        (PMsg ''Scan'' [(''grid'', PList [PList [PInt 1], POther ''<class 'bytes'>'']),
                        (''blob'', POther ''<class 'bytes'>''),
                        (''n'', PInt 3)]) []
       = ([(''n'', PInt 3)],
          [(DEBUG, ''Skipping unsupported list element type for grid[0]: <class 'list'>''),
           (DEBUG, ''Skipping unsupported list element type for grid[1]: <class 'bytes'>''),
           (DEBUG, ''Skipping unsupported field type for blob: <class 'bytes'>'')])
   \<and> fst (flatten_ros_message
        (PMsg ''Scan'' [(''grid'', PList [PList [PInt 1], POther ''<class 'bytes'>'']),
                        (''n'', PInt 3)]) [])
       = fst (flatten_ros_message (PMsg ''Scan'' [(''n'', PInt 3)]) [])"
proof -
  let ?ws = "[PList [PInt 1], POther ''<class 'bytes'>'']"
  have ws: "list_all (\<lambda>v. \<not> is_basic v \<and> \<not> has_slots v) ?ws" by simp
  have run: "flatten_ros_message
        (PMsg ''Scan'' [(''grid'', PList ?ws), (''blob'', POther ''<class 'bytes'>''),
                        (''n'', PInt 3)]) []
       = ([(''n'', PInt 3)],
          [(DEBUG, ''Skipping unsupported list element type for grid[0]: <class 'list'>''),
           (DEBUG, ''Skipping unsupported list element type for grid[1]: <class 'bytes'>''),
           (DEBUG, ''Skipping unsupported field type for blob: <class 'bytes'>'')])"
    by code_simp
  from unsupported_values_are_skipped
         [where f = "''grid''" and p = "[]" and v = "PList []" and c = "''Scan''"
            and ?fs1.0 = "[]" and ?fs2.0 = "[(''n'', PInt 3)]" and ws = ?ws]
  have "fst (flatten_ros_message (PMsg ''Scan'' ([] @ (''grid'', PList ?ws) # [(''n'', PInt 3)])) [])
       = fst (flatten_ros_message (PMsg ''Scan'' ([] @ [(''n'', PInt 3)])) [])"
    using ws by blast
  with run show ?thesis by simp
qed

text \<open>
  Claim C6. The value a flattened row holds under a key is the value of the last
  assignment to that key, in the order in which flattening computes the assignments:
  \<open>map_of (rev ws) k\<close> is the value of the last pair of \<open>ws\<close> with key \<open>k\<close>. In
  particular, merging the row of a nested message overwrites what the row held under
  the keys of the nested row and keeps the rest. The diagnostics do not depend on the
  contents of the dictionary, so a collision logs nothing; all that is ever logged are
  the debug messages about unsupported types. In the example the key \<open>a.b\<close> is
  written twice, first by the field \<open>a.b\<close> and then by the field \<open>b\<close> of the nested
  message \<open>a\<close>; the later value 2 stays and nothing is logged.
\<close>

theorem key_collisions_last_write_wins:
  "dict_get (fst (flatten_ros_message msg p)) k = map_of (rev (assignments msg p)) k
   \<and> dict_get (dict_update r (fst (flatten_ros_message v key))) k
       = (case dict_get (fst (flatten_ros_message v key)) k of
            Some x \<Rightarrow> Some x | None \<Rightarrow> dict_get r k)
   \<and> snd (flatten_slots fs p (r, log)) = log @ snd (flatten_slots fs p ([], []))
   \<and> snd (flatten_items vs key i (r, log)) = log @ snd (flatten_items vs key i ([], []))
   \<and> list_all is_skip_diag (snd (flatten_ros_message msg p))
   \<and> flatten_ros_message
        (PMsg ''Outer'' [(''a.b'', PInt 1), (''a'', PMsg ''Inner'' [(''b'', PInt 2)])]) []
       = ([(''a.b'', PInt 2)], [])"
proof -
  have ex: "flatten_ros_message
        (PMsg ''Outer'' [(''a.b'', PInt 1), (''a'', PMsg ''Inner'' [(''b'', PInt 2)])]) []
       = ([(''a.b'', PInt 2)], [])"
    by code_simp
  have merge: "dict_get (dict_update r (fst (flatten_ros_message v key))) k
       = (case dict_get (fst (flatten_ros_message v key)) k of
            Some x \<Rightarrow> Some x | None \<Rightarrow> dict_get r k)"
    by (simp add: dict_get_update_distinct flatten_distinct)
  have slots: "snd (flatten_slots fs p (r, log)) = log @ snd (flatten_slots fs p ([], []))"
    by (simp add: slots_unfold)
  have items: "snd (flatten_items vs key i (r, log)) = log @ snd (flatten_items vs key i ([], []))"
    by (simp add: items_unfold)
  from flatten_last_write(1) [of msg p k] merge slots items flatten_log_skips(1) [of msg p] ex
  show ?thesis by blast
qed

end
